theory Spec2Isabelle
  imports Main "HOL-Library.Word"
begin

section \<open>The FHETimeCapsule contract\<close>

text \<open>
  A shallow embedding of \<^verbatim>\<open>packages/hardhat/contracts/FHETimeCapsule.sol\<close>.
  Solidity's \<^verbatim>\<open>uint256\<close>, \<^verbatim>\<open>address\<close> and \<^verbatim>\<open>bytes32\<close> are words of
  their width. The encrypted types \<^verbatim>\<open>euint256\<close>, \<^verbatim>\<open>euint64\<close>, \<^verbatim>\<open>ebool\<close>
  and \<^verbatim>\<open>eaddress\<close> are user-defined value types over \<^verbatim>\<open>bytes32\<close>: a
  ciphertext handle. A \<^verbatim>\<open>require\<close> that fails and the overflow check of the
  compiler (pragma 0.8.24) are values of \<open>error\<close>, returned as \<open>Inl\<close>; a call that
  reverts returns no state, and the caller keeps the state it had.
\<close>

type_synonym uint256 = "256 word"
type_synonym address = "160 word"
type_synonym bytes32 = "256 word"
type_synonym bytes = "8 word list"

text \<open>The revert reasons of the contract, one constructor for each message.\<close>

datatype error =
    EncryptedMessageRequired
  | MessageProofMismatch
  | UnlockTimeNotInFuture
  | OnlyCreatorCanCancel
  | CapsuleNotActive
  | CapsuleAlreadyUnlocked
  | UnlockTimeNotArrived
  | InvalidRecipient
  | CapsuleNotUnlocked
  | OnlyCreatorCanShare
  | ArithmeticPanic
  | InputRejected

fun reason :: "error \<Rightarrow> string" where
  "reason EncryptedMessageRequired = ''Encrypted message required''"
| "reason MessageProofMismatch = ''Message proof mismatch''"
| "reason UnlockTimeNotInFuture = ''Unlock time must be in the future''"
| "reason OnlyCreatorCanCancel = ''Only creator can cancel''"
| "reason CapsuleNotActive = ''Capsule is not active''"
| "reason CapsuleAlreadyUnlocked = ''Capsule is already unlocked''"
| "reason UnlockTimeNotArrived = ''Unlock time has not arrived''"
| "reason InvalidRecipient = ''Invalid recipient''"
| "reason CapsuleNotUnlocked = ''Capsule not unlocked''"
| "reason OnlyCreatorCanShare = ''Only creator can share''"
| "reason ArithmeticPanic = ''panic 0x11''"
| "reason InputRejected = ''revert in FHE.fromExternal''"

text \<open>
  The error taxonomy is the specification's, not the contract's: bad creation arguments
  and a null recipient are a \<open>ValidationError\<close>, a violated guard of cancel, open or
  grant is an \<open>InvalidTransition\<close>, a failure of the encryption library is a
  \<open>CapabilityError\<close>. The arithmetic panic of the compiler is in none of them.
\<close>

datatype error_kind = ValidationError | InvalidTransition | CapabilityError | Panic

fun kind :: "error \<Rightarrow> error_kind" where
  "kind EncryptedMessageRequired = ValidationError"
| "kind MessageProofMismatch = ValidationError"
| "kind UnlockTimeNotInFuture = ValidationError"
| "kind InvalidRecipient = ValidationError"
| "kind OnlyCreatorCanCancel = InvalidTransition"
| "kind CapsuleNotActive = InvalidTransition"
| "kind CapsuleAlreadyUnlocked = InvalidTransition"
| "kind UnlockTimeNotArrived = InvalidTransition"
| "kind CapsuleNotUnlocked = InvalidTransition"
| "kind OnlyCreatorCanShare = InvalidTransition"
| "kind ArithmeticPanic = Panic"
| "kind InputRejected = CapabilityError"

record TimeCapsule =
  encryptedMessage :: "bytes32 list"
  encryptedUnlockTime :: bytes32
  encryptedIsActive :: bytes32
  encryptedIsUnlocked :: bytes32
  encryptedCreator :: bytes32
  creator :: address
  unlockTime :: uint256
  isActive :: bool
  isUnlocked :: bool

text \<open>The value a storage slot of type \<^verbatim>\<open>TimeCapsule\<close> has before it is written.\<close>

definition zeroCapsule :: TimeCapsule where
  "zeroCapsule =
     \<lparr>encryptedMessage = [], encryptedUnlockTime = 0, encryptedIsActive = 0,
      encryptedIsUnlocked = 0, encryptedCreator = 0, creator = 0, unlockTime = 0,
      isActive = False, isUnlocked = False\<rparr>"

datatype event =
    CapsuleCreated uint256 address uint256
  | CapsuleUnlocked uint256 address
  | CapsuleCancelled uint256 address
  | CapsuleEncryptionGranted uint256 address bytes32 bytes32 bytes32 bytes32 "bytes32 list"

text \<open>
  The library \<^verbatim>\<open>@fhevm/solidity/lib/FHE.sol\<close> is a dependency, not code of the
  repository: its operations are parameters of the model. \<^verbatim>\<open>FHE.asEbool\<close> and
  \<^verbatim>\<open>FHE.asEaddress\<close> build the handle of a plaintext. \<^verbatim>\<open>FHE.fromExternal\<close> verifies
  an external handle against its proof: it returns the imported handle, or reverts, which
  is \<open>None\<close> here and reverts the whole call. \<open>this\<close> is the address of the contract.
  \<^verbatim>\<open>FHE.allow(h, a)\<close> and \<^verbatim>\<open>FHE.allowThis(h)\<close> record a permission, kept here as
  the set \<open>allowed\<close> of pairs of a handle and an account.
\<close>

record FHE =
  asEbool :: "bool \<Rightarrow> bytes32"
  asEaddress :: "address \<Rightarrow> bytes32"
  fromExternal64 :: "bytes32 \<Rightarrow> bytes \<Rightarrow> bytes32 option"
  fromExternal256 :: "bytes32 \<Rightarrow> bytes \<Rightarrow> bytes32 option"
  this :: address

text \<open>
  The storage of the contract: a Solidity mapping is a total function whose value at a
  key never written is the zero value. \<open>events\<close> is the log, oldest first.
\<close>

record state =
  timeCapsules :: "uint256 \<Rightarrow> TimeCapsule"
  userCapsules :: "address \<Rightarrow> uint256 list"
  nextCapsuleId :: uint256
  allowed :: "(bytes32 \<times> address) set"
  events :: "event list"

definition deployed :: state where
  "deployed =
     \<lparr>timeCapsules = (\<lambda>_. zeroCapsule), userCapsules = (\<lambda>_. []), nextCapsuleId = 1,
      allowed = {}, events = []\<rparr>"

text \<open>
  The loop of \<^verbatim>\<open>createTimeCapsule\<close>: each chunk is imported with its proof, allowed
  to the contract and pushed; the first chunk the library rejects ends the loop with
  \<open>None\<close>. It runs over both arrays at once; the second \<^verbatim>\<open>require\<close> has made their
  lengths equal.
\<close>

fun pushChunks ::
  "FHE \<Rightarrow> bytes32 list \<Rightarrow> bytes list \<Rightarrow> bytes32 list \<times> (bytes32 \<times> address) set
     \<Rightarrow> (bytes32 list \<times> (bytes32 \<times> address) set) option" where
  "pushChunks L (h # hs) (p # ps) (m, A) =
     (case fromExternal256 L h p of
        None \<Rightarrow> None
      | Some chunk \<Rightarrow> pushChunks L hs ps (m @ [chunk], insert (chunk, this L) A))"
| "pushChunks L _ _ (m, A) = Some (m, A)"

text \<open>
  \<^verbatim>\<open>createTimeCapsule\<close>: the three \<^verbatim>\<open>require\<close>s in their order, then
  \<^verbatim>\<open>capsuleId = nextCapsuleId++\<close>, whose checked increment panics when the counter is
  \<open>2^256 - 1\<close>, then the writes to the slot of the new id in the order of the source.
  A revert of \<^verbatim>\<open>FHE.fromExternal\<close>, on the unlock time or on a chunk, undoes the writes
  made before it: the call returns \<open>InputRejected\<close> and no state.
\<close>

definition createTimeCapsule ::
  "FHE \<Rightarrow> address \<Rightarrow> uint256 \<Rightarrow> bytes32 list \<Rightarrow> bytes list \<Rightarrow> bytes32 \<Rightarrow> bytes \<Rightarrow> uint256
     \<Rightarrow> state \<Rightarrow> error + (uint256 \<times> state)" where
  "createTimeCapsule L sender now encryptedMessageChunks messageProofs
       encryptedUnlockTimeHandle unlockTimeProof unlockTime' s =
     (if \<not> length encryptedMessageChunks > 0 then Inl EncryptedMessageRequired
      else if length encryptedMessageChunks \<noteq> length messageProofs then Inl MessageProofMismatch
      else if \<not> unlockTime' > now then Inl UnlockTimeNotInFuture
      else if nextCapsuleId s = - 1 then Inl ArithmeticPanic
      else
        let capsuleId = nextCapsuleId s;
            capsule = timeCapsules s capsuleId;
            c1 = capsule\<lparr>creator := sender, encryptedCreator := asEaddress L sender\<rparr>;
            A1 = insert (encryptedCreator c1, this L) (allowed s)
        in case fromExternal64 L encryptedUnlockTimeHandle unlockTimeProof of
             None \<Rightarrow> Inl InputRejected
           | Some imported \<Rightarrow>
               let c2 = c1\<lparr>unlockTime := unlockTime', encryptedUnlockTime := imported\<rparr>;
                   A2 = insert (encryptedUnlockTime c2, this L) A1;
                   c3 = c2\<lparr>isActive := True, isUnlocked := False,
                           encryptedIsActive := asEbool L True,
                           encryptedIsUnlocked := asEbool L False\<rparr>;
                   A3 = insert (encryptedIsUnlocked c3, this L)
                          (insert (encryptedIsActive c3, this L) A2)
               in case pushChunks L encryptedMessageChunks messageProofs
                         (encryptedMessage c3, A3) of
                    None \<Rightarrow> Inl InputRejected
                  | Some (m, A4) \<Rightarrow>
                      Inr (capsuleId,
                        s\<lparr>nextCapsuleId := capsuleId + 1,
                          timeCapsules := (timeCapsules s)
                            (capsuleId := c3\<lparr>encryptedMessage := m\<rparr>),
                          userCapsules := (userCapsules s)
                            (sender := userCapsules s sender @ [capsuleId]),
                          allowed := A4,
                          events := events s @ [CapsuleCreated capsuleId sender unlockTime']\<rparr>))"

definition cancelTimeCapsule :: "FHE \<Rightarrow> address \<Rightarrow> uint256 \<Rightarrow> state \<Rightarrow> error + state" where
  "cancelTimeCapsule L sender capsuleId s =
     (let capsule = timeCapsules s capsuleId in
      if creator capsule \<noteq> sender then Inl OnlyCreatorCanCancel
      else if \<not> isActive capsule then Inl CapsuleNotActive
      else if isUnlocked capsule then Inl CapsuleAlreadyUnlocked
      else Inr (s\<lparr>timeCapsules := (timeCapsules s)
                     (capsuleId := capsule\<lparr>isActive := False, encryptedIsActive := asEbool L False\<rparr>),
                  events := events s @ [CapsuleCancelled capsuleId sender]\<rparr>))"

text \<open>
  The loop of \<^verbatim>\<open>_allowCapsuleTo\<close>: every chunk is allowed to the recipient and its
  handle is copied into \<^verbatim>\<open>messageHandles\<close>.
\<close>

fun allowChunks ::
  "address \<Rightarrow> bytes32 list \<Rightarrow> (bytes32 \<times> address) set \<times> bytes32 list
     \<Rightarrow> (bytes32 \<times> address) set \<times> bytes32 list" where
  "allowChunks recipient [] (A, messageHandles) = (A, messageHandles)"
| "allowChunks recipient (c # cs) (A, messageHandles) =
     allowChunks recipient cs (insert (c, recipient) A, messageHandles @ [c])"

definition allowCapsuleTo :: "uint256 \<Rightarrow> address \<Rightarrow> state \<Rightarrow> state" where
  "allowCapsuleTo capsuleId recipient s =
     (let capsule = timeCapsules s capsuleId;
          A1 = insert (encryptedIsUnlocked capsule, recipient)
                (insert (encryptedIsActive capsule, recipient)
                  (insert (encryptedUnlockTime capsule, recipient)
                    (insert (encryptedCreator capsule, recipient) (allowed s))));
          (A2, messageHandles) = allowChunks recipient (encryptedMessage capsule) (A1, [])
      in s\<lparr>allowed := A2,
           events := events s @
             [CapsuleEncryptionGranted capsuleId recipient (encryptedCreator capsule)
                (encryptedUnlockTime capsule) (encryptedIsActive capsule)
                (encryptedIsUnlocked capsule) messageHandles]\<rparr>)"

definition openCapsule :: "FHE \<Rightarrow> uint256 \<Rightarrow> address \<Rightarrow> state \<Rightarrow> state" where
  "openCapsule L capsuleId requestor s =
     (let capsule = timeCapsules s capsuleId;
          capsule' = capsule\<lparr>isActive := False, isUnlocked := True,
                       encryptedIsActive := asEbool L False, encryptedIsUnlocked := asEbool L True\<rparr>;
          s1 = s\<lparr>timeCapsules := (timeCapsules s)(capsuleId := capsule')\<rparr>;
          s2 = allowCapsuleTo capsuleId (creator capsule') s1;
          s3 = (if requestor \<noteq> creator capsule' then allowCapsuleTo capsuleId requestor s2 else s2)
      in s3\<lparr>events := events s3 @ [CapsuleUnlocked capsuleId (creator capsule')]\<rparr>)"

definition openTimeCapsule :: "FHE \<Rightarrow> address \<Rightarrow> uint256 \<Rightarrow> uint256 \<Rightarrow> state \<Rightarrow> error + state" where
  "openTimeCapsule L sender now capsuleId s =
     (let capsule = timeCapsules s capsuleId in
      if \<not> isActive capsule then Inl CapsuleNotActive
      else if isUnlocked capsule then Inl CapsuleAlreadyUnlocked
      else if \<not> now \<ge> unlockTime capsule then Inl UnlockTimeNotArrived
      else Inr (openCapsule L capsuleId sender s))"

definition grantDecryptionAccess :: "address \<Rightarrow> uint256 \<Rightarrow> address \<Rightarrow> state \<Rightarrow> error + state" where
  "grantDecryptionAccess sender capsuleId recipient s =
     (if \<not> recipient \<noteq> 0 then Inl InvalidRecipient
      else
        let capsule = timeCapsules s capsuleId in
        if \<not> isUnlocked capsule then Inl CapsuleNotUnlocked
        else if creator capsule \<noteq> sender then Inl OnlyCreatorCanShare
        else Inr (allowCapsuleTo capsuleId recipient s))"

text \<open>
  The two views the claims use. \<^verbatim>\<open>getTimeCapsule\<close> returns the number of chunks as the
  length of the list; \<^verbatim>\<open>getTotalCapsules\<close> subtracts with the overflow check of the
  compiler.
\<close>

definition getTimeCapsule :: "uint256 \<Rightarrow> state \<Rightarrow> address \<times> uint256 \<times> bool \<times> bool \<times> nat" where
  "getTimeCapsule capsuleId s =
     (let capsule = timeCapsules s capsuleId in
      (creator capsule, unlockTime capsule, isActive capsule, isUnlocked capsule,
       length (encryptedMessage capsule)))"

definition getTotalCapsules :: "state \<Rightarrow> error + uint256" where
  "getTotalCapsules s =
     (if nextCapsuleId s = 0 then Inl ArithmeticPanic else Inr (nextCapsuleId s - 1))"

subsection \<open>Transactions\<close>

text \<open>
  A transaction is a call of one of the four state-changing functions, with its
  \<^verbatim>\<open>msg.sender\<close> and the \<^verbatim>\<open>block.timestamp\<close> it runs at. \<open>step\<close> is the
  outcome of one transaction: the error of a revert, or the value returned (the id,
  for a creation) and the new state. \<open>run\<close> applies a list of transactions in order;
  a transaction that reverts leaves the storage as it was.
\<close>

datatype call =
    Create "bytes32 list" "bytes list" bytes32 bytes uint256
  | Cancel uint256
  | Open uint256
  | Grant uint256 address

datatype transaction = Tx address uint256 call

fun step :: "FHE \<Rightarrow> transaction \<Rightarrow> state \<Rightarrow> error + (uint256 option \<times> state)" where
  "step L (Tx sender now (Create chunks proofs h p t)) s =
     (case createTimeCapsule L sender now chunks proofs h p t s of
        Inl e \<Rightarrow> Inl e | Inr (capsuleId, s') \<Rightarrow> Inr (Some capsuleId, s'))"
| "step L (Tx sender now (Cancel capsuleId)) s =
     (case cancelTimeCapsule L sender capsuleId s of Inl e \<Rightarrow> Inl e | Inr s' \<Rightarrow> Inr (None, s'))"
| "step L (Tx sender now (Open capsuleId)) s =
     (case openTimeCapsule L sender now capsuleId s of Inl e \<Rightarrow> Inl e | Inr s' \<Rightarrow> Inr (None, s'))"
| "step L (Tx sender now (Grant capsuleId recipient)) s =
     (case grantDecryptionAccess sender capsuleId recipient s of
        Inl e \<Rightarrow> Inl e | Inr s' \<Rightarrow> Inr (None, s'))"

definition after :: "FHE \<Rightarrow> transaction \<Rightarrow> state \<Rightarrow> state" where
  "after L t s = (case step L t s of Inl e \<Rightarrow> s | Inr (r, s') \<Rightarrow> s')"

fun run :: "FHE \<Rightarrow> transaction list \<Rightarrow> state \<Rightarrow> state" where
  "run L [] s = s"
| "run L (t # ts) s = run L ts (after L t s)"

text \<open>The ids returned by the creations of a run that did not revert, oldest first.\<close>

fun created :: "FHE \<Rightarrow> transaction list \<Rightarrow> state \<Rightarrow> uint256 list" where
  "created L [] s = []"
| "created L (t # ts) s =
     (case step L t s of
        Inr (Some capsuleId, s') \<Rightarrow> capsuleId # created L ts s'
      | Inr (None, s') \<Rightarrow> created L ts s'
      | Inl e \<Rightarrow> created L ts s)"


subsection \<open>Handles and events of a grant\<close>

text \<open>
  The handles \<^verbatim>\<open>_allowCapsuleTo\<close> allows to a recipient (the four encrypted fields
  and every chunk of the message) and the event it emits, as functions of the capsule.
\<close>

definition fieldHandles :: "TimeCapsule \<Rightarrow> bytes32 set" where
  "fieldHandles c =
     {encryptedCreator c, encryptedUnlockTime c, encryptedIsActive c, encryptedIsUnlocked c}
       \<union> set (encryptedMessage c)"

definition grantEvent :: "uint256 \<Rightarrow> address \<Rightarrow> TimeCapsule \<Rightarrow> event" where
  "grantEvent capsuleId recipient c =
     CapsuleEncryptionGranted capsuleId recipient (encryptedCreator c) (encryptedUnlockTime c)
       (encryptedIsActive c) (encryptedIsUnlocked c) (encryptedMessage c)"

subsection \<open>A library instance for concrete runs\<close>

text \<open>
  Concrete runs need a library. This instance gives the two encrypted booleans and each
  encrypted address a handle of their own; it rejects an external handle that comes with
  an empty proof and imports any other as it is.
\<close>

definition mockFHE :: FHE where
  "mockFHE =
     \<lparr>asEbool = (\<lambda>b. if b then 0xB1 else 0xB0), asEaddress = (\<lambda>a. 0xA000 + ucast a),
      fromExternal64 = (\<lambda>h p. if p = [] then None else Some h),
      fromExternal256 = (\<lambda>h p. if p = [] then None else Some h), this = 0xC0\<rparr>"

text \<open>Two transactions for concrete runs: a creation by \<open>0xA1\<close> at time 100 of a capsule that
  unlocks at 200, and its opening by \<open>0xB2\<close> at 200.\<close>

definition sampleCreate :: transaction where
  "sampleCreate = Tx 0xA1 100 (Create [0x11, 0x22] [[1], [2]] 0x33 [3] 200)"

definition sampleOpen :: transaction where
  "sampleOpen = Tx 0xB2 200 (Open 1)"

section \<open>The chunk codec of the client\<close>









text \<open>
  Hexadecimal strings: \<^verbatim>\<open>toString(16)\<close> of a number or a bigint (lower case, no
  leading zeros, a minus sign for a negative bigint), \<^verbatim>\<open>padStart\<close> with a one-character
  pad, \<^verbatim>\<open>slice(-k)\<close>, \<^verbatim>\<open>toLowerCase\<close> on ASCII letters, \<^verbatim>\<open>BigInt("0x" + hex)\<close>
  (a \<^verbatim>\<open>SyntaxError\<close> without digits or on a character that is no hexadecimal digit),
  and \<^verbatim>\<open>ethers.getBytes\<close>, which accepts \<^verbatim>\<open>0x\<close> followed by pairs of hexadecimal
  digits, prefix and digits in either case, and throws on anything else.
\<close>

definition hexDigit :: "nat \<Rightarrow> char" where
  "hexDigit d = ''0123456789abcdef'' ! d"

definition digitVal :: "char \<Rightarrow> nat option" where
  "digitVal c = map_of
     [(CHR ''0'', 0), (CHR ''1'', 1), (CHR ''2'', 2), (CHR ''3'', 3), (CHR ''4'', 4),
      (CHR ''5'', 5), (CHR ''6'', 6), (CHR ''7'', 7), (CHR ''8'', 8), (CHR ''9'', 9),
      (CHR ''a'', 10), (CHR ''b'', 11), (CHR ''c'', 12), (CHR ''d'', 13), (CHR ''e'', 14),
      (CHR ''f'', 15), (CHR ''A'', 10), (CHR ''B'', 11), (CHR ''C'', 12), (CHR ''D'', 13),
      (CHR ''E'', 14), (CHR ''F'', 15)] c"








fun hexValue :: "string \<Rightarrow> nat \<Rightarrow> nat option" where
  "hexValue [] acc = Some acc"
| "hexValue (c # cs) acc =
     (case digitVal c of None \<Rightarrow> None | Some d \<Rightarrow> hexValue cs (16 * acc + d))"















subsection \<open>The text encoder and decoder of the platform\<close>











subsection \<open>Functions used in the proofs\<close>


fun fixedHex :: "nat \<Rightarrow> nat \<Rightarrow> string" where
  "fixedHex 0 n = []"
| "fixedHex (Suc k) n = fixedHex k (n div 16) @ [hexDigit (n mod 16)]"


section \<open>Properties of the contract\<close>

subsection \<open>What the functions compute\<close>

lemma pushChunks_Some:
  "map2 (fromExternal256 L) hs ps = map Some cs \<Longrightarrow>
     pushChunks L hs ps (m, A) = Some (m @ cs, A \<union> (\<lambda>c. (c, this L)) ` set cs)"
proof (induction L hs ps "(m, A)" arbitrary: m A cs rule: pushChunks.induct)
  case (1 L h hs p ps m A)
  then obtain c cs' where cs: "cs = c # cs'" "fromExternal256 L h p = Some c"
    "map2 (fromExternal256 L) hs ps = map Some cs'"
    by (cases cs) auto
  from "1.hyps" [OF cs(2) cs(3)] show ?case by (simp add: cs)
qed auto

lemma pushChunks_None:
  "None \<in> set (map2 (fromExternal256 L) hs ps) \<Longrightarrow> pushChunks L hs ps (m, A) = None"
proof (induction L hs ps "(m, A)" arbitrary: m A rule: pushChunks.induct)
  case (1 L h hs p ps m A)
  show ?case
  proof (cases "fromExternal256 L h p")
    case None
    then show ?thesis by simp
  next
    case (Some c)
    then have "None \<in> set (map2 (fromExternal256 L) hs ps)" using "1.prems" by auto
    from "1.hyps" [OF Some this] show ?thesis by (simp add: Some)
  qed
qed auto

lemma allowChunks_eq:
  "allowChunks r cs (A, hs) = (A \<union> (\<lambda>c. (c, r)) ` set cs, hs @ cs)"
  by (induction cs arbitrary: A hs) auto

lemma allowCapsuleTo_fields [simp]:
  "timeCapsules (allowCapsuleTo capsuleId r s) = timeCapsules s"
  "nextCapsuleId (allowCapsuleTo capsuleId r s) = nextCapsuleId s"
  "userCapsules (allowCapsuleTo capsuleId r s) = userCapsules s"
  by (simp_all add: allowCapsuleTo_def Let_def split: prod.splits)

lemma openCapsule_fields [simp]:
  "timeCapsules (openCapsule L capsuleId r s) =
     (timeCapsules s)(capsuleId := (timeCapsules s capsuleId)
        \<lparr>isActive := False, isUnlocked := True,
         encryptedIsActive := asEbool L False, encryptedIsUnlocked := asEbool L True\<rparr>)"
  "nextCapsuleId (openCapsule L capsuleId r s) = nextCapsuleId s"
  "userCapsules (openCapsule L capsuleId r s) = userCapsules s"
  by (simp_all add: openCapsule_def Let_def)

lemma allowCapsuleTo_eq:
  "allowCapsuleTo capsuleId r s =
     s\<lparr>allowed := allowed s \<union> fieldHandles (timeCapsules s capsuleId) \<times> {r},
       events := events s @ [grantEvent capsuleId r (timeCapsules s capsuleId)]\<rparr>"
proof -
  have "insert (encryptedIsUnlocked c, r) (insert (encryptedIsActive c, r)
          (insert (encryptedUnlockTime c, r) (insert (encryptedCreator c, r) A)))
        \<union> (\<lambda>h. (h, r)) ` set (encryptedMessage c) = A \<union> fieldHandles c \<times> {r}" for c A
    by (auto simp: fieldHandles_def)
  then show ?thesis
    by (simp add: allowCapsuleTo_def Let_def allowChunks_eq grantEvent_def)
qed

lemma openCapsule_eq:
  "openCapsule L capsuleId sender s =
    (let c = timeCapsules s capsuleId;
         c' = c\<lparr>isActive := False, isUnlocked := True,
                encryptedIsActive := asEbool L False, encryptedIsUnlocked := asEbool L True\<rparr>
     in s\<lparr>timeCapsules := (timeCapsules s)(capsuleId := c'),
          allowed := allowed s \<union> fieldHandles c' \<times> {creator c, sender},
          events := events s @ [grantEvent capsuleId (creator c) c']
            @ (if sender \<noteq> creator c then [grantEvent capsuleId sender c'] else [])
            @ [CapsuleUnlocked capsuleId (creator c)]\<rparr>)"
proof -
  have u: "A \<union> H \<times> {a} \<union> H \<times> {b} = A \<union> H \<times> {a, b}" for A H and a b :: address
    by auto
  show ?thesis
    by (auto simp: openCapsule_def Let_def allowCapsuleTo_eq u)
qed

lemma createTimeCapsule_Inr:
  assumes "createTimeCapsule L sender now chunks proofs h p t s = Inr (capsuleId, s')"
  shows "capsuleId = nextCapsuleId s" "nextCapsuleId s \<noteq> - 1"
    "nextCapsuleId s' = nextCapsuleId s + 1"
    "\<exists>c. timeCapsules s' = (timeCapsules s)(nextCapsuleId s := c) \<and> isActive c \<and> \<not> isUnlocked c"
  using assms
  by (auto simp: createTimeCapsule_def Let_def split: if_splits option.splits)

lemma createTimeCapsule_ok:
  assumes "chunks \<noteq> []" and "length chunks = length proofs" and "now < t"
    and "nextCapsuleId s \<noteq> - 1"
    and "fromExternal64 L h p = Some imported"
    and "map2 (fromExternal256 L) chunks proofs = map Some cs"
  shows "createTimeCapsule L sender now chunks proofs h p t s =
     Inr (nextCapsuleId s,
       s\<lparr>nextCapsuleId := nextCapsuleId s + 1,
         timeCapsules := (timeCapsules s)(nextCapsuleId s := (timeCapsules s (nextCapsuleId s))
           \<lparr>creator := sender, encryptedCreator := asEaddress L sender,
            unlockTime := t, encryptedUnlockTime := imported,
            isActive := True, isUnlocked := False,
            encryptedIsActive := asEbool L True, encryptedIsUnlocked := asEbool L False,
            encryptedMessage := encryptedMessage (timeCapsules s (nextCapsuleId s)) @ cs\<rparr>),
         userCapsules := (userCapsules s)(sender := userCapsules s sender @ [nextCapsuleId s]),
         allowed := allowed s \<union>
           ({asEaddress L sender, imported, asEbool L True, asEbool L False} \<union> set cs)
             \<times> {this L},
         events := events s @ [CapsuleCreated (nextCapsuleId s) sender t]\<rparr>)"
proof -
  have h: "A \<union> ({asEaddress L sender, imported, asEbool L True, asEbool L False} \<union> set cs) \<times> {a}
      = insert (asEbool L False, a) (insert (asEbool L True, a)
          (insert (imported, a) (insert (asEaddress L sender, a) A)))
        \<union> (\<lambda>c. (c, a)) ` set cs" for A a
    by (auto simp: image_iff)
  have "proofs \<noteq> []" using assms(1,2) by auto
  then show ?thesis unfolding h using assms(1-5)
    by (simp add: createTimeCapsule_def Let_def pushChunks_Some [OF assms(6)])
qed

lemma createTimeCapsule_rejected:
  assumes "chunks \<noteq> []" and "length chunks = length proofs" and "now < t"
    and "nextCapsuleId s \<noteq> - 1"
    and "fromExternal64 L h p = None \<or> None \<in> set (map2 (fromExternal256 L) chunks proofs)"
  shows "createTimeCapsule L sender now chunks proofs h p t s = Inl InputRejected"
proof -
  have ne: "proofs \<noteq> []" using assms(1,2) by auto
  show ?thesis
  proof (cases "fromExternal64 L h p")
    case None
    then show ?thesis using ne assms(1-4) by (simp add: createTimeCapsule_def Let_def)
  next
    case (Some imported)
    then have "None \<in> set (map2 (fromExternal256 L) chunks proofs)" using assms(5) by simp
    then have "pushChunks L chunks proofs (m, A) = None" for m A by (rule pushChunks_None)
    then show ?thesis using ne assms(1-4) Some by (simp add: createTimeCapsule_def Let_def)
  qed
qed

lemma cancelTimeCapsule_Inr:
  assumes "cancelTimeCapsule L sender capsuleId s = Inr s'"
  shows "timeCapsules s' = (timeCapsules s)(capsuleId := (timeCapsules s capsuleId)
            \<lparr>isActive := False, encryptedIsActive := asEbool L False\<rparr>)"
    "nextCapsuleId s' = nextCapsuleId s" "userCapsules s' = userCapsules s"
    "allowed s' = allowed s" "events s' = events s @ [CapsuleCancelled capsuleId sender]"
    "creator (timeCapsules s capsuleId) = sender" "isActive (timeCapsules s capsuleId)"
    "\<not> isUnlocked (timeCapsules s capsuleId)"
  using assms by (auto simp: cancelTimeCapsule_def Let_def split: if_splits)

lemma openTimeCapsule_Inr:
  assumes "openTimeCapsule L sender now capsuleId s = Inr s'"
  shows "s' = openCapsule L capsuleId sender s"
    "isActive (timeCapsules s capsuleId)" "\<not> isUnlocked (timeCapsules s capsuleId)"
    "unlockTime (timeCapsules s capsuleId) \<le> now"
  using assms by (auto simp: openTimeCapsule_def Let_def split: if_splits)

lemma grantDecryptionAccess_Inr:
  assumes "grantDecryptionAccess sender capsuleId recipient s = Inr s'"
  shows "s' = allowCapsuleTo capsuleId recipient s" "recipient \<noteq> 0"
    "isUnlocked (timeCapsules s capsuleId)" "creator (timeCapsules s capsuleId) = sender"
  using assms by (auto simp: grantDecryptionAccess_def Let_def split: if_splits)

lemma step_Some:
  assumes "step L t s = Inr (Some i, s')"
  shows "i = nextCapsuleId s" "nextCapsuleId s \<noteq> - 1" "nextCapsuleId s' = nextCapsuleId s + 1"
    "after L t s = s'"
proof -
  obtain sender now c where t: "t = Tx sender now c" by (cases t)
  from assms t obtain chunks proofs h p tm where c: "c = Create chunks proofs h p tm"
    by (cases c) (auto split: sum.splits)
  from assms t c have r: "createTimeCapsule L sender now chunks proofs h p tm s = Inr (i, s')"
    by (auto split: sum.splits)
  show "i = nextCapsuleId s" "nextCapsuleId s \<noteq> - 1" "nextCapsuleId s' = nextCapsuleId s + 1"
    using createTimeCapsule_Inr(1-3) [OF r] by simp_all
  show "after L t s = s'" using assms by (simp add: after_def)
qed

lemma step_None:
  assumes "step L t s = Inr (None, s')"
  shows "nextCapsuleId s' = nextCapsuleId s" "after L t s = s'"
proof -
  obtain sender now c where t: "t = Tx sender now c" by (cases t)
  show "nextCapsuleId s' = nextCapsuleId s"
    using assms t
    by (cases c)
       (auto split: sum.splits
             dest: cancelTimeCapsule_Inr(2) openTimeCapsule_Inr(1) grantDecryptionAccess_Inr(1))
  show "after L t s = s'" using assms by (simp add: after_def)
qed

lemma step_Inl: "step L t s = Inl e \<Longrightarrow> after L t s = s"
  by (simp add: after_def)

text \<open>What one transaction does to the capsules and to the counter.\<close>

lemma after_cases:
  obtains (same) "timeCapsules (after L t s) = timeCapsules s"
      "nextCapsuleId (after L t s) = nextCapsuleId s"
  | (create) c where "nextCapsuleId s \<noteq> - 1"
      "nextCapsuleId (after L t s) = nextCapsuleId s + 1"
      "timeCapsules (after L t s) = (timeCapsules s)(nextCapsuleId s := c)"
      "isActive c" "\<not> isUnlocked c"
  | (cancel) capsuleId where
      "nextCapsuleId (after L t s) = nextCapsuleId s"
      "isActive (timeCapsules s capsuleId)" "\<not> isUnlocked (timeCapsules s capsuleId)"
      "timeCapsules (after L t s) = (timeCapsules s)(capsuleId := (timeCapsules s capsuleId)
            \<lparr>isActive := False, encryptedIsActive := asEbool L False\<rparr>)"
  | (opened) capsuleId where
      "nextCapsuleId (after L t s) = nextCapsuleId s"
      "isActive (timeCapsules s capsuleId)" "\<not> isUnlocked (timeCapsules s capsuleId)"
      "timeCapsules (after L t s) = (timeCapsules s)(capsuleId := (timeCapsules s capsuleId)
        \<lparr>isActive := False, isUnlocked := True,
         encryptedIsActive := asEbool L False, encryptedIsUnlocked := asEbool L True\<rparr>)"
proof (cases t)
  case (Tx sender now c)
  show ?thesis
  proof (cases c)
    case (Create chunks proofs h p tm)
    show ?thesis
    proof (cases "createTimeCapsule L sender now chunks proofs h p tm s")
      case (Inl e)
      then show ?thesis using Tx Create same by (simp add: after_def)
    next
      case (Inr r)
      obtain capsuleId s' where r: "r = (capsuleId, s')" by (cases r)
      note facts = createTimeCapsule_Inr [OF Inr [unfolded r]]
      have a: "after L t s = s'" using Tx Create Inr r by (simp add: after_def)
      obtain c where c: "timeCapsules s' = (timeCapsules s)(nextCapsuleId s := c)"
        "isActive c" "\<not> isUnlocked c" using facts(4) by blast
      show ?thesis
        by (rule create [where c = c]) (simp_all add: a facts(2,3) c)
    qed
  next
    case (Cancel capsuleId)
    show ?thesis
    proof (cases "cancelTimeCapsule L sender capsuleId s")
      case (Inl e)
      then show ?thesis using Tx Cancel same by (simp add: after_def)
    next
      case (Inr s')
      have a: "after L t s = s'" using Tx Cancel Inr by (simp add: after_def)
      show ?thesis
        by (rule cancel [where capsuleId = capsuleId])
           (simp_all add: a cancelTimeCapsule_Inr [OF Inr])
    qed
  next
    case (Open capsuleId)
    show ?thesis
    proof (cases "openTimeCapsule L sender now capsuleId s")
      case (Inl e)
      then show ?thesis using Tx Open same by (simp add: after_def)
    next
      case (Inr s')
      have a: "after L t s = openCapsule L capsuleId sender s"
        using Tx Open Inr openTimeCapsule_Inr(1) [OF Inr] by (simp add: after_def)
      show ?thesis
        by (rule opened [where capsuleId = capsuleId])
           (simp_all add: a openTimeCapsule_Inr [OF Inr])
    qed
  next
    case (Grant capsuleId recipient)
    show ?thesis
    proof (cases "grantDecryptionAccess sender capsuleId recipient s")
      case (Inl e)
      then show ?thesis using Tx Grant same by (simp add: after_def)
    next
      case (Inr s')
      have a: "after L t s = allowCapsuleTo capsuleId recipient s"
        using Tx Grant Inr grantDecryptionAccess_Inr(1) [OF Inr] by (simp add: after_def)
      show ?thesis by (rule same) (simp_all add: a)
    qed
  qed
qed

lemma run_append: "run L (ts @ us) s = run L us (run L ts s)"
  by (induction ts arbitrary: s) simp_all

lemmas eval_defs = after_def createTimeCapsule_def cancelTimeCapsule_def openTimeCapsule_def
  openCapsule_def allowCapsuleTo_def grantDecryptionAccess_def getTimeCapsule_def
  getTotalCapsules_def deployed_def zeroCapsule_def mockFHE_def Let_def

lemmas sample_defs = sampleCreate_def sampleOpen_def fieldHandles_def grantEvent_def

subsection \<open>Invariants of a run\<close>

lemma after_flags:
  assumes "\<And>i. \<not> (isActive (timeCapsules s i) \<and> isUnlocked (timeCapsules s i))"
  shows "\<not> (isActive (timeCapsules (after L t s) i) \<and> isUnlocked (timeCapsules (after L t s) i))"
  using assms by (cases L t s rule: after_cases) (auto simp: fun_upd_def)

lemma run_flags:
  assumes "\<And>i. \<not> (isActive (timeCapsules s i) \<and> isUnlocked (timeCapsules s i))"
  shows "\<not> (isActive (timeCapsules (run L ts s) i) \<and> isUnlocked (timeCapsules (run L ts s) i))"
  using assms
proof (induction ts arbitrary: s i)
  case Nil
  then show ?case by simp
next
  case (Cons t ts)
  show ?case
    unfolding run.simps
    by (rule Cons.IH) (rule after_flags, rule Cons.prems)
qed

text \<open>Slots the counter has not reached hold the zero value, and the counter is never 0.\<close>

lemma after_unused:
  assumes "nextCapsuleId s \<noteq> 0"
    and "\<And>i. i = 0 \<or> nextCapsuleId s \<le> i \<Longrightarrow> timeCapsules s i = zeroCapsule"
  shows "nextCapsuleId (after L t s) \<noteq> 0"
    and "i = 0 \<or> nextCapsuleId (after L t s) \<le> i \<Longrightarrow> timeCapsules (after L t s) i = zeroCapsule"
    and "nextCapsuleId s \<le> nextCapsuleId (after L t s)"
proof -
  have z: "\<not> isActive zeroCapsule" by (simp add: zeroCapsule_def)
  have "nextCapsuleId (after L t s) \<noteq> 0
      \<and> (i = 0 \<or> nextCapsuleId (after L t s) \<le> i \<longrightarrow> timeCapsules (after L t s) i = zeroCapsule)
      \<and> nextCapsuleId s \<le> nextCapsuleId (after L t s)"
  proof (cases L t s rule: after_cases)
    case same
    then show ?thesis using assms by auto
  next
    case (create c)
    have lt: "nextCapsuleId s < nextCapsuleId s + 1"
      using create(1) by (metis inc_less_eq_self_iff_eq linorder_not_le)
    have nz: "nextCapsuleId s + 1 \<noteq> 0"
      using create(1) max_word_wrap by blast
    have le: "nextCapsuleId s + 1 \<le> i \<Longrightarrow> nextCapsuleId s \<le> i \<and> i \<noteq> nextCapsuleId s"
      using lt by auto
    show ?thesis using create(2,3) assms lt nz le by auto
  next
    case (cancel capsuleId)
    have "timeCapsules s capsuleId \<noteq> zeroCapsule" using cancel(2) z by auto
    then have "capsuleId \<noteq> 0 \<and> \<not> nextCapsuleId s \<le> capsuleId" using assms(2) by blast
    then show ?thesis using cancel assms by auto
  next
    case (opened capsuleId)
    have "timeCapsules s capsuleId \<noteq> zeroCapsule" using opened(2) z by auto
    then have "capsuleId \<noteq> 0 \<and> \<not> nextCapsuleId s \<le> capsuleId" using assms(2) by blast
    then show ?thesis using opened assms by auto
  qed
  then show "nextCapsuleId (after L t s) \<noteq> 0"
    and "i = 0 \<or> nextCapsuleId (after L t s) \<le> i \<Longrightarrow> timeCapsules (after L t s) i = zeroCapsule"
    and "nextCapsuleId s \<le> nextCapsuleId (after L t s)"
    by blast+
qed

lemma run_unused:
  assumes "nextCapsuleId s \<noteq> 0"
    and "\<And>i. i = 0 \<or> nextCapsuleId s \<le> i \<Longrightarrow> timeCapsules s i = zeroCapsule"
  shows "nextCapsuleId (run L ts s) \<noteq> 0
      \<and> (\<forall>i. i = 0 \<or> nextCapsuleId (run L ts s) \<le> i \<longrightarrow> timeCapsules (run L ts s) i = zeroCapsule)
      \<and> nextCapsuleId s \<le> nextCapsuleId (run L ts s)"
  using assms
proof (induction ts arbitrary: s)
  case Nil
  then show ?case by simp
next
  case (Cons t ts)
  have 1: "nextCapsuleId (after L t s) \<noteq> 0"
    by (rule after_unused(1) [OF Cons.prems])
  have 2: "\<And>i. i = 0 \<or> nextCapsuleId (after L t s) \<le> i \<Longrightarrow> timeCapsules (after L t s) i = zeroCapsule"
    by (rule after_unused(2) [OF Cons.prems])
  have 3: "nextCapsuleId s \<le> nextCapsuleId (after L t s)"
    by (rule after_unused(3) [OF Cons.prems])
  from Cons.IH [OF 1 2] 3 show ?case by auto
qed

lemma deployed_unused:
  "nextCapsuleId (run L ts deployed) \<noteq> 0"
  "i = 0 \<or> nextCapsuleId (run L ts deployed) \<le> i \<Longrightarrow> timeCapsules (run L ts deployed) i = zeroCapsule"
proof -
  have a: "nextCapsuleId deployed \<noteq> 0" by (simp add: deployed_def)
  have b: "\<And>i. i = 0 \<or> nextCapsuleId deployed \<le> i \<Longrightarrow> timeCapsules deployed i = zeroCapsule"
    by (simp add: deployed_def)
  note r = run_unused [of deployed L ts, OF a b]
  show "nextCapsuleId (run L ts deployed) \<noteq> 0" using r by blast
  show "i = 0 \<or> nextCapsuleId (run L ts deployed) \<le> i \<Longrightarrow> timeCapsules (run L ts deployed) i = zeroCapsule"
    using r by blast
qed

text \<open>An unlocked capsule stays unlocked through one more transaction, then through any run.\<close>

lemma after_unlocked:
  assumes "nextCapsuleId s \<noteq> 0"
    and "\<And>i. i = 0 \<or> nextCapsuleId s \<le> i \<Longrightarrow> timeCapsules s i = zeroCapsule"
    and "isUnlocked (timeCapsules s i)"
  shows "isUnlocked (timeCapsules (after L t s) i)"
proof (cases L t s rule: after_cases)
  case same
  then show ?thesis using assms(3) by simp
next
  case (create c)
  have "timeCapsules s i \<noteq> zeroCapsule" using assms(3) by (auto simp: zeroCapsule_def)
  then have "i \<noteq> nextCapsuleId s" using assms(2) [of i] by auto
  then show ?thesis using create assms(3) by simp
next
  case (cancel capsuleId)
  then show ?thesis using assms(3) by auto
next
  case (opened capsuleId)
  then show ?thesis using assms(3) by auto
qed

lemma run_unlocked:
  assumes "nextCapsuleId s \<noteq> 0"
    and "\<And>i. i = 0 \<or> nextCapsuleId s \<le> i \<Longrightarrow> timeCapsules s i = zeroCapsule"
    and "isUnlocked (timeCapsules s i)"
  shows "isUnlocked (timeCapsules (run L ts s) i)"
  using assms
proof (induction ts arbitrary: s)
  case Nil
  then show ?case by simp
next
  case (Cons t ts)
  show ?case
    unfolding run.simps
  proof (rule Cons.IH)
    show "nextCapsuleId (after L t s) \<noteq> 0"
      by (rule after_unused(1) [OF Cons.prems(1,2)])
    show "\<And>i. i = 0 \<or> nextCapsuleId (after L t s) \<le> i \<Longrightarrow> timeCapsules (after L t s) i = zeroCapsule"
      by (rule after_unused(2) [OF Cons.prems(1,2)])
    show "isUnlocked (timeCapsules (after L t s) i)"
      by (rule after_unlocked [OF Cons.prems])
  qed
qed

lemma after_next_mono: "nextCapsuleId s \<le> nextCapsuleId (after L t s)"
proof (cases L t s rule: after_cases)
  case (create c)
  have "nextCapsuleId s < nextCapsuleId s + 1"
    using create(1) by (metis inc_less_eq_self_iff_eq linorder_not_le)
  then show ?thesis using create(2) by simp
qed simp_all

lemma run_next_mono: "nextCapsuleId s \<le> nextCapsuleId (run L ts s)"
proof (induction ts arbitrary: s)
  case Nil
  show ?case by simp
next
  case (Cons t ts)
  have "nextCapsuleId s \<le> nextCapsuleId (after L t s)" by (rule after_next_mono)
  also have "\<dots> \<le> nextCapsuleId (run L ts (after L t s))" by (rule Cons.IH)
  finally show ?case by simp
qed

text \<open>The ids a run returns are the values the counter went through.\<close>

lemma created_range:
  "map unat (created L ts s) = [unat (nextCapsuleId s) ..< unat (nextCapsuleId (run L ts s))]"
proof (induction ts arbitrary: s)
  case Nil
  show ?case by simp
next
  case (Cons t ts)
  show ?case
  proof (cases "step L t s")
    case (Inl e)
    then show ?thesis using Cons.IH [of s] by (simp add: step_Inl)
  next
    case (Inr r)
    obtain x s' where r: "r = (x, s')" by (cases r)
    show ?thesis
    proof (cases x)
      case None
      note f = step_None [OF Inr [unfolded r None]]
      show ?thesis using Cons.IH [of s'] Inr r None f by simp
    next
      case (Some i)
      note f = step_Some [OF Inr [unfolded r Some]]
      have "1 + nextCapsuleId s \<noteq> 0"
      proof
        assume "1 + nextCapsuleId s = 0"
        then have "nextCapsuleId s + 1 = 0" by (simp add: add.commute)
        then have "nextCapsuleId s = - 1" by (rule max_word_wrap)
        then show False using f(2) by simp
      qed
      then have "unat (1 + nextCapsuleId s) = Suc (unat (nextCapsuleId s))" by (rule unatSuc)
      then have u: "unat (nextCapsuleId s') = Suc (unat (nextCapsuleId s))"
        using f(3) by (simp add: add.commute)
      have "nextCapsuleId s' \<le> nextCapsuleId (run L ts s')" by (rule run_next_mono)
      then have "Suc (unat (nextCapsuleId s)) \<le> unat (nextCapsuleId (run L ts s'))"
        using u by (simp add: word_le_nat_alt)
      then have "[unat (nextCapsuleId s) ..< unat (nextCapsuleId (run L ts s'))]
          = unat (nextCapsuleId s) # [Suc (unat (nextCapsuleId s)) ..< unat (nextCapsuleId (run L ts s'))]"
        by (simp add: upt_conv_Cons)
      then show ?thesis using Cons.IH [of s'] Inr r Some f u by simp
    qed
  qed
qed

lemma created_deployed:
  "map unat (created L ts deployed) = [1 ..< unat (nextCapsuleId (run L ts deployed))]"
  using created_range [of L ts deployed] by (simp add: deployed_def)

lemma next_deployed:
  "unat (nextCapsuleId (run L ts deployed)) = Suc (length (created L ts deployed))"
proof -
  have "1 \<le> unat (nextCapsuleId (run L ts deployed))"
    using deployed_unused(1) [of L ts] by (simp add: unat_gt_0 Suc_le_eq)
  moreover have "length (created L ts deployed) = unat (nextCapsuleId (run L ts deployed)) - 1"
    using arg_cong [OF created_deployed [of L ts], of length] by simp
  ultimately show ?thesis by simp
qed

text \<open>
  A capsule below the counter keeps its creator, its unlock time and its chunks through
  any transaction, and an inactive one stays inactive.
\<close>

lemma after_settled:
  assumes "\<And>j. j = 0 \<or> nextCapsuleId s \<le> j \<Longrightarrow> timeCapsules s j = zeroCapsule"
    and "i < nextCapsuleId s"
  shows "creator (timeCapsules (after L t s) i) = creator (timeCapsules s i)
       \<and> unlockTime (timeCapsules (after L t s) i) = unlockTime (timeCapsules s i)
       \<and> encryptedMessage (timeCapsules (after L t s) i) = encryptedMessage (timeCapsules s i)
       \<and> (\<not> isActive (timeCapsules s i) \<longrightarrow> \<not> isActive (timeCapsules (after L t s) i))"
proof (cases L t s rule: after_cases)
  case same
  then show ?thesis by simp
next
  case (create c)
  have "i \<noteq> nextCapsuleId s" using assms(2) by auto
  then show ?thesis using create by simp
next
  case (cancel capsuleId)
  then show ?thesis by auto
next
  case (opened capsuleId)
  then show ?thesis by auto
qed

lemma run_settled:
  assumes "nextCapsuleId s \<noteq> 0"
    and "\<And>j. j = 0 \<or> nextCapsuleId s \<le> j \<Longrightarrow> timeCapsules s j = zeroCapsule"
    and "i < nextCapsuleId s"
  shows "creator (timeCapsules (run L ts s) i) = creator (timeCapsules s i)
       \<and> unlockTime (timeCapsules (run L ts s) i) = unlockTime (timeCapsules s i)
       \<and> encryptedMessage (timeCapsules (run L ts s) i) = encryptedMessage (timeCapsules s i)
       \<and> (\<not> isActive (timeCapsules s i) \<longrightarrow> \<not> isActive (timeCapsules (run L ts s) i))"
  using assms
proof (induction ts arbitrary: s)
  case Nil
  show ?case by simp
next
  case (Cons t ts)
  have 1: "nextCapsuleId (after L t s) \<noteq> 0"
    by (rule after_unused(1) [OF Cons.prems(1,2)])
  have 2: "\<And>j. j = 0 \<or> nextCapsuleId (after L t s) \<le> j \<Longrightarrow> timeCapsules (after L t s) j = zeroCapsule"
    by (rule after_unused(2) [OF Cons.prems(1,2)])
  have 3: "i < nextCapsuleId (after L t s)"
    using Cons.prems(3) after_next_mono [of s L t] by simp
  from Cons.IH [OF 1 2 3] after_settled [OF Cons.prems(2,3), of L t]
  show ?case by simp
qed

subsection \<open>The lifecycle flags\<close>

text \<open>
  C1. In every state the contract reaches from its deployment, by any sequence of
  transactions (creations, cancellations, openings and grants, reverted or not, by any
  senders at any timestamps), no capsule has \<open>isActive\<close> and \<open>isUnlocked\<close> both true.
\<close>

theorem flags_never_both:
  "\<not> (isActive (timeCapsules (run L ts deployed) capsuleId)
      \<and> isUnlocked (timeCapsules (run L ts deployed) capsuleId))"
  by (rule run_flags) (simp add: deployed_def zeroCapsule_def)

text \<open>
  C2. \<^verbatim>\<open>openTimeCapsule\<close> succeeds exactly when the capsule is active, not unlocked and
  \<open>unlockTime \<le> now\<close> (the boundary \<open>now = unlockTime\<close> included), whoever the sender is.
  On success the capsule has \<open>isActive = False\<close> and \<open>isUnlocked = True\<close> (and the two
  encrypted mirrors), every field handle of the capsule is allowed to the creator and
  to the sender, a grant event is logged for the creator, one more for the sender when
  it is not the creator, and then the unlocked event. Otherwise the call reverts with the
  reason of the first guard that fails, and the state is unchanged.
\<close>

theorem openTimeCapsule_spec:
  "(let c = timeCapsules s capsuleId;
        c' = c\<lparr>isActive := False, isUnlocked := True,
               encryptedIsActive := asEbool L False, encryptedIsUnlocked := asEbool L True\<rparr>
    in if isActive c \<and> \<not> isUnlocked c \<and> unlockTime c \<le> now
       then openTimeCapsule L sender now capsuleId s =
              Inr (s\<lparr>timeCapsules := (timeCapsules s)(capsuleId := c'),
                     allowed := allowed s \<union> fieldHandles c' \<times> {creator c, sender},
                     events := events s @ [grantEvent capsuleId (creator c) c']
                       @ (if sender \<noteq> creator c then [grantEvent capsuleId sender c'] else [])
                       @ [CapsuleUnlocked capsuleId (creator c)]\<rparr>)
       else openTimeCapsule L sender now capsuleId s =
              Inl (if \<not> isActive c then CapsuleNotActive
                   else if isUnlocked c then CapsuleAlreadyUnlocked
                   else UnlockTimeNotArrived)
            \<and> after L (Tx sender now (Open capsuleId)) s = s)"
  by (simp add: openTimeCapsule_def openCapsule_eq Let_def after_def)

theorem openTimeCapsule_spec_witness:
  "isActive (timeCapsules (run mockFHE [sampleCreate] deployed) 1)
   \<and> \<not> isUnlocked (timeCapsules (run mockFHE [sampleCreate] deployed) 1)
   \<and> unlockTime (timeCapsules (run mockFHE [sampleCreate] deployed) 1) \<le> 200
   \<and> (case openTimeCapsule mockFHE 0xB2 200 1 (run mockFHE [sampleCreate] deployed) of
         Inl e \<Rightarrow> False
       | Inr s' \<Rightarrow> isUnlocked (timeCapsules s' 1) \<and> \<not> isActive (timeCapsules s' 1)
           \<and> allowed s' = allowed (run mockFHE [sampleCreate] deployed)
                \<union> {0xA0A1, 0x33, 0xB0, 0xB1, 0x11, 0x22} \<times> {0xA1, 0xB2}
           \<and> last (events s') = CapsuleUnlocked 1 0xA1)
   \<and> openTimeCapsule mockFHE 0xB2 199 1 (run mockFHE [sampleCreate] deployed) = Inl UnlockTimeNotArrived"
  using openTimeCapsule_spec [of "run mockFHE [sampleCreate] deployed" 1 mockFHE 200 "0xB2"]
    openTimeCapsule_spec [of "run mockFHE [sampleCreate] deployed" 1 mockFHE 199 "0xB2"]
  by (auto simp: eval_defs sample_defs)

text \<open>
  C3. \<open>isUnlocked\<close> is monotone: if a capsule is unlocked in the state reached from
  deployment by the transactions \<open>ts\<close>, it is unlocked in the state reached by any
  further transactions \<open>us\<close> (cancellations, openings, grants and creations, by any
  senders at any timestamps).
\<close>

theorem isUnlocked_monotone:
  assumes "isUnlocked (timeCapsules (run L ts deployed) capsuleId)"
  shows "isUnlocked (timeCapsules (run L (ts @ us) deployed) capsuleId)"
  unfolding run_append
  by (rule run_unlocked [OF deployed_unused(1) deployed_unused(2) assms])

theorem isUnlocked_monotone_witness:
  "isUnlocked (timeCapsules (run mockFHE
       [Tx 0xA1 100 (Create [0x11, 0x22] [[1], [2]] 0x33 [3] 200), Tx 0xB2 200 (Open 1)] deployed) 1)
   \<and> isUnlocked (timeCapsules (run mockFHE
       ([Tx 0xA1 100 (Create [0x11, 0x22] [[1], [2]] 0x33 [3] 200), Tx 0xB2 200 (Open 1)]
        @ [Tx 0xA1 300 (Cancel 1), Tx 0xA1 300 (Open 1), Tx 0xA1 300 (Grant 1 0xC3),
           Tx 0xA1 300 (Create [0x44] [[4]] 0x55 [5] 400)]) deployed) 1)"
  using isUnlocked_monotone [of mockFHE
       "[Tx 0xA1 100 (Create [0x11, 0x22] [[1], [2]] 0x33 [3] 200), Tx 0xB2 200 (Open 1)]" 1
        "[Tx 0xA1 300 (Cancel 1), Tx 0xA1 300 (Open 1), Tx 0xA1 300 (Grant 1 0xC3),
           Tx 0xA1 300 (Create [0x44] [[4]] 0x55 [5] 400)]"]
  by (simp add: eval_defs)

subsection \<open>Creation\<close>

text \<open>
  C4, as amended. In a state reached from deployment, \<^verbatim>\<open>createTimeCapsule\<close> fails
  with a \<open>ValidationError\<close> exactly when the chunk list is empty, or the numbers of
  chunks and proofs differ, or the unlock time is not strictly greater than the current
  time; a call that fails leaves the state unchanged. When the three conditions are met
  and \<^verbatim>\<open>FHE.fromExternal\<close> accepts the unlock-time handle and every chunk with its proof,
  it succeeds: it returns the counter as id, an id no earlier creation returned, stores
  the plaintext fields and the encrypted mirrors at that id, records the id for the
  sender, allows every new handle to the contract and logs the created event. When the
  three conditions are met and \<^verbatim>\<open>FHE.fromExternal\<close> rejects the unlock-time handle or
  a chunk, the call reverts with the error of the library. The last two statements are
  for fewer than \<open>2^256 - 2\<close> capsules created, so that the checked increment of the
  counter does not overflow.
\<close>

theorem createTimeCapsule_spec:
  "(let s = run L ts deployed in
     ((\<exists>e. createTimeCapsule L sender now chunks proofs h p t s = Inl e \<and> kind e = ValidationError)
        \<longleftrightarrow> chunks = [] \<or> length chunks \<noteq> length proofs \<or> \<not> now < t)
   \<and> ((\<exists>e. createTimeCapsule L sender now chunks proofs h p t s = Inl e)
        \<longrightarrow> after L (Tx sender now (Create chunks proofs h p t)) s = s)
   \<and> (chunks \<noteq> [] \<and> length chunks = length proofs \<and> now < t
        \<and> length (created L ts deployed) < 2 ^ 256 - 2
        \<and> fromExternal64 L h p = Some imported
        \<and> map2 (fromExternal256 L) chunks proofs = map Some cs \<longrightarrow>
        createTimeCapsule L sender now chunks proofs h p t s =
          Inr (nextCapsuleId s,
            s\<lparr>nextCapsuleId := nextCapsuleId s + 1,
              timeCapsules := (timeCapsules s)(nextCapsuleId s :=
                \<lparr>encryptedMessage = cs, encryptedUnlockTime = imported,
                 encryptedIsActive = asEbool L True, encryptedIsUnlocked = asEbool L False,
                 encryptedCreator = asEaddress L sender, creator = sender, unlockTime = t,
                 isActive = True, isUnlocked = False\<rparr>),
              userCapsules := (userCapsules s)(sender := userCapsules s sender @ [nextCapsuleId s]),
              allowed := allowed s \<union>
                ({asEaddress L sender, imported, asEbool L True, asEbool L False} \<union> set cs)
                  \<times> {this L},
              events := events s @ [CapsuleCreated (nextCapsuleId s) sender t]\<rparr>)
        \<and> nextCapsuleId s \<notin> set (created L ts deployed)
        \<and> unat (nextCapsuleId s) = Suc (length (created L ts deployed)))
   \<and> (chunks \<noteq> [] \<and> length chunks = length proofs \<and> now < t
        \<and> length (created L ts deployed) < 2 ^ 256 - 2
        \<and> (fromExternal64 L h p = None \<or> None \<in> set (map2 (fromExternal256 L) chunks proofs))
        \<longrightarrow>
        createTimeCapsule L sender now chunks proofs h p t s = Inl InputRejected
        \<and> kind InputRejected = CapabilityError))"
proof -
  let ?s = "run L ts deployed"
  let ?n = "nextCapsuleId ?s"
  let ?r = "createTimeCapsule L sender now chunks proofs h p t ?s"
  have u: "unat ?n = Suc (length (created L ts deployed))" by (rule next_deployed)
  have m1: "unat (- 1 :: uint256) = 2 ^ 256 - 1"
    by (simp add: unsigned_minus_1_eq_mask mask_eq_exp_minus_1)
  have "?n = - 1 \<longleftrightarrow> unat ?n = unat (- 1 :: uint256)" by (simp only: word_unat_eq_iff)
  then have full: "?n = - 1 \<longleftrightarrow> \<not> length (created L ts deployed) < 2 ^ 256 - 2"
    using u m1 unsigned_less [of ?n, where 'a = nat] by auto
  have a: "(\<exists>e. ?r = Inl e \<and> kind e = ValidationError)
        \<longleftrightarrow> chunks = [] \<or> length chunks \<noteq> length proofs \<or> \<not> now < t"
    by (auto simp: createTimeCapsule_def Let_def split: prod.splits option.splits)
  have b: "(\<exists>e. ?r = Inl e) \<longrightarrow> after L (Tx sender now (Create chunks proofs h p t)) ?s = ?s"
    by (auto simp: after_def)
  have z: "timeCapsules ?s ?n = zeroCapsule"
    by (rule deployed_unused(2)) simp
  have fresh: "?n \<notin> set (created L ts deployed)"
  proof
    assume "?n \<in> set (created L ts deployed)"
    then have "unat ?n \<in> set (map unat (created L ts deployed))" by simp
    then show False unfolding created_deployed by simp
  qed
  have c: "?r = Inr (?n,
            ?s\<lparr>nextCapsuleId := ?n + 1,
              timeCapsules := (timeCapsules ?s)(?n :=
                \<lparr>encryptedMessage = cs, encryptedUnlockTime = imported,
                 encryptedIsActive = asEbool L True, encryptedIsUnlocked = asEbool L False,
                 encryptedCreator = asEaddress L sender, creator = sender, unlockTime = t,
                 isActive = True, isUnlocked = False\<rparr>),
              userCapsules := (userCapsules ?s)(sender := userCapsules ?s sender @ [?n]),
              allowed := allowed ?s \<union>
                ({asEaddress L sender, imported, asEbool L True, asEbool L False} \<union> set cs)
                  \<times> {this L},
              events := events ?s @ [CapsuleCreated ?n sender t]\<rparr>)"
    if "chunks \<noteq> []" "length chunks = length proofs" "now < t" "?n \<noteq> - 1"
      "fromExternal64 L h p = Some imported"
      "map2 (fromExternal256 L) chunks proofs = map Some cs"
    using createTimeCapsule_ok [OF that, of sender] by (simp add: z zeroCapsule_def)
  have d: "?r = Inl InputRejected"
    if "chunks \<noteq> []" "length chunks = length proofs" "now < t" "?n \<noteq> - 1"
      "fromExternal64 L h p = None \<or> None \<in> set (map2 (fromExternal256 L) chunks proofs)"
    by (rule createTimeCapsule_rejected [OF that])
  have k: "kind InputRejected = CapabilityError" by simp
  show ?thesis
    unfolding Let_def using a b c d k fresh u full by blast
qed

theorem createTimeCapsule_spec_witness:
  "[0x11, 0x22 :: bytes32] \<noteq> [] \<and> length [0x11, 0x22 :: bytes32] = length [[1], [2] :: bytes]
   \<and> (100 :: uint256) < 200 \<and> length (created mockFHE [] deployed) < 2 ^ 256 - 2
   \<and> fromExternal64 mockFHE 0x33 [3] = Some 0x33
   \<and> map2 (fromExternal256 mockFHE) [0x11, 0x22] [[1], [2]] = map Some [0x11, 0x22]
   \<and> createTimeCapsule mockFHE 0xA1 100 [0x11, 0x22] [[1], [2]] 0x33 [3] 200 (run mockFHE [] deployed) =
       Inr (1, deployed\<lparr>nextCapsuleId := 2,
          timeCapsules := (timeCapsules deployed)(1 :=
            \<lparr>encryptedMessage = [0x11, 0x22], encryptedUnlockTime = 0x33,
             encryptedIsActive = 0xB1, encryptedIsUnlocked = 0xB0,
             encryptedCreator = 0xA0A1, creator = 0xA1, unlockTime = 200,
             isActive = True, isUnlocked = False\<rparr>),
          userCapsules := (userCapsules deployed)(0xA1 := [1]),
          allowed := {0xA0A1, 0x33, 0xB1, 0xB0, 0x11, 0x22} \<times> {0xC0},
          events := [CapsuleCreated 1 0xA1 200]\<rparr>)
   \<and> createTimeCapsule mockFHE 0xA1 100 [0x11, 0x22] [[1], [2]] 0x33 [3] 100 (run mockFHE [] deployed) =
       Inl UnlockTimeNotInFuture
   \<and> None \<in> set (map2 (fromExternal256 mockFHE) [0x11, 0x22] [[1], []])
   \<and> createTimeCapsule mockFHE 0xA1 100 [0x11, 0x22] [[1], []] 0x33 [3] 200 (run mockFHE [] deployed) =
       Inl InputRejected"
  using createTimeCapsule_spec [of mockFHE "[]" "0xA1" 100 "[0x11, 0x22]" "[[1], [2]]" "0x33" "[3]" 200
      "0x33" "[0x11, 0x22]"]
    createTimeCapsule_spec [of mockFHE "[]" "0xA1" 100 "[0x11, 0x22]" "[[1], [2]]" "0x33" "[3]" 100]
    createTimeCapsule_spec [of mockFHE "[]" "0xA1" 100 "[0x11, 0x22]" "[[1], []]" "0x33" "[3]" 200]
  by (auto simp: eval_defs)

text \<open>
  The three conditions do not suffice: in the deployed contract, with a library that
  rejects the proof of the chunk, a creation with one chunk and one proof and an unlock
  time in the future reverts.
\<close>

theorem createTimeCapsule_input_rejected:
  "[0x11 :: bytes32] \<noteq> [] \<and> length [0x11 :: bytes32] = length [[] :: bytes]
   \<and> (100 :: uint256) < 200
   \<and> fromExternal256 mockFHE 0x11 [] = None
   \<and> createTimeCapsule mockFHE 0xA1 100 [0x11] [[]] 0x33 [3] 200 deployed = Inl InputRejected"
  by (simp add: createTimeCapsule_def deployed_def mockFHE_def Let_def)

subsection \<open>Grants\<close>

text \<open>
  C5, as amended. \<^verbatim>\<open>grantDecryptionAccess\<close> succeeds exactly when the capsule is
  unlocked, the sender is its creator and the recipient is not the zero address. A grant
  to the zero address reverts with \<open>InvalidRecipient\<close>, a \<open>ValidationError\<close>, whoever
  sends it; a grant to a recipient other than zero by a sender other than the creator, on
  an unlocked capsule, reverts with \<open>OnlyCreatorCanShare\<close>, an \<open>InvalidTransition\<close>; a
  grant on a capsule that is not unlocked reverts. A successful grant allows every field
  handle to the recipient and logs the grant event; repeating it succeeds again and
  changes neither the capsules nor the permissions (the event is logged once more).
\<close>

theorem grantDecryptionAccess_spec:
  "(let c = timeCapsules s capsuleId in
     ((\<exists>s'. grantDecryptionAccess sender capsuleId recipient s = Inr s')
        \<longleftrightarrow> isUnlocked c \<and> creator c = sender \<and> recipient \<noteq> 0)
   \<and> (recipient = 0 \<longrightarrow>
        grantDecryptionAccess sender capsuleId recipient s = Inl InvalidRecipient
        \<and> kind InvalidRecipient = ValidationError)
   \<and> (recipient \<noteq> 0 \<and> isUnlocked c \<and> creator c \<noteq> sender \<longrightarrow>
        grantDecryptionAccess sender capsuleId recipient s = Inl OnlyCreatorCanShare
        \<and> kind OnlyCreatorCanShare = InvalidTransition)
   \<and> (\<not> isUnlocked c \<longrightarrow>
        grantDecryptionAccess sender capsuleId recipient s =
          Inl (if recipient = 0 then InvalidRecipient else CapsuleNotUnlocked))
   \<and> (isUnlocked c \<and> creator c = sender \<and> recipient \<noteq> 0 \<longrightarrow>
        grantDecryptionAccess sender capsuleId recipient s =
          Inr (s\<lparr>allowed := allowed s \<union> fieldHandles c \<times> {recipient},
                 events := events s @ [grantEvent capsuleId recipient c]\<rparr>)
        \<and> grantDecryptionAccess sender capsuleId recipient
            (s\<lparr>allowed := allowed s \<union> fieldHandles c \<times> {recipient},
               events := events s @ [grantEvent capsuleId recipient c]\<rparr>) =
          Inr (s\<lparr>allowed := allowed s \<union> fieldHandles c \<times> {recipient},
                 events := events s @ [grantEvent capsuleId recipient c]
                   @ [grantEvent capsuleId recipient c]\<rparr>)))"
proof -
  have idem: "A \<union> H \<times> {r} \<union> H \<times> {r} = A \<union> H \<times> {r}" for A H and r :: address
    by auto
  show ?thesis
    by (simp add: grantDecryptionAccess_def allowCapsuleTo_eq Let_def idem)
qed

theorem grantDecryptionAccess_spec_witness:
  "isUnlocked (timeCapsules (run mockFHE [sampleCreate, sampleOpen] deployed) 1)
   \<and> creator (timeCapsules (run mockFHE [sampleCreate, sampleOpen] deployed) 1) = 0xA1
   \<and> (case grantDecryptionAccess 0xA1 1 0xC3 (run mockFHE [sampleCreate, sampleOpen] deployed) of
         Inl e \<Rightarrow> False
       | Inr s' \<Rightarrow> (0x11, 0xC3) \<in> allowed s' \<and> (0x22, 0xC3) \<in> allowed s'
           \<and> (case grantDecryptionAccess 0xA1 1 0xC3 s' of
                 Inl e \<Rightarrow> False
               | Inr s'' \<Rightarrow> allowed s'' = allowed s' \<and> timeCapsules s'' = timeCapsules s'))
   \<and> grantDecryptionAccess 0xB2 1 0xC3 (run mockFHE [sampleCreate, sampleOpen] deployed)
       = Inl OnlyCreatorCanShare
   \<and> grantDecryptionAccess 0xA1 1 0 (run mockFHE [sampleCreate, sampleOpen] deployed)
       = Inl InvalidRecipient
   \<and> grantDecryptionAccess 0xA1 1 0xC3 (run mockFHE [sampleCreate] deployed)
       = Inl CapsuleNotUnlocked"
  using grantDecryptionAccess_spec [of "run mockFHE [sampleCreate, sampleOpen] deployed" 1 "0xA1" "0xC3"]
    grantDecryptionAccess_spec [of "run mockFHE [sampleCreate, sampleOpen] deployed" 1 "0xB2" "0xC3"]
    grantDecryptionAccess_spec [of "run mockFHE [sampleCreate, sampleOpen] deployed" 1 "0xA1" 0]
    grantDecryptionAccess_spec [of "run mockFHE [sampleCreate] deployed" 1 "0xA1" "0xC3"]
  by (auto simp: eval_defs sample_defs)

text \<open>
  The zero-recipient guard comes first: on an unlocked capsule, a grant to the zero address
  by an account that is not the creator reverts with \<open>InvalidRecipient\<close>, which is not an
  \<open>InvalidTransition\<close>.
\<close>

theorem grant_by_stranger_to_null:
  "isUnlocked (timeCapsules (run mockFHE
       [Tx 0xA1 100 (Create [0x11, 0x22] [[1], [2]] 0x33 [3] 200), Tx 0xB2 200 (Open 1)] deployed) 1)
   \<and> creator (timeCapsules (run mockFHE
       [Tx 0xA1 100 (Create [0x11, 0x22] [[1], [2]] 0x33 [3] 200), Tx 0xB2 200 (Open 1)] deployed) 1) \<noteq> 0xB2
   \<and> grantDecryptionAccess 0xB2 1 0 (run mockFHE
       [Tx 0xA1 100 (Create [0x11, 0x22] [[1], [2]] 0x33 [3] 200), Tx 0xB2 200 (Open 1)] deployed)
       = Inl InvalidRecipient
   \<and> kind InvalidRecipient \<noteq> InvalidTransition"
  by (simp add: eval_defs)

subsection \<open>Cancellation\<close>

text \<open>
  C6. \<^verbatim>\<open>cancelTimeCapsule\<close> succeeds exactly when the sender is the creator and the
  capsule is active and not unlocked; it then sets \<open>isActive\<close> to false (and its mirror)
  and logs the cancelled event. Otherwise it reverts with the reason of the first guard
  that fails, an \<open>InvalidTransition\<close>, which for a sender other than the creator is
  \<open>OnlyCreatorCanCancel\<close>. After a successful cancellation in a state reached from
  deployment, the capsule is inactive in every later state and every further
  cancellation of it reverts: with \<open>CapsuleNotActive\<close> for the creator, with
  \<open>OnlyCreatorCanCancel\<close> for anyone else.
\<close>

theorem cancelTimeCapsule_spec:
  "(let c = timeCapsules s capsuleId in
    if creator c = sender \<and> isActive c \<and> \<not> isUnlocked c
    then cancelTimeCapsule L sender capsuleId s =
           Inr (s\<lparr>timeCapsules := (timeCapsules s)
                    (capsuleId := c\<lparr>isActive := False, encryptedIsActive := asEbool L False\<rparr>),
                  events := events s @ [CapsuleCancelled capsuleId sender]\<rparr>)
    else cancelTimeCapsule L sender capsuleId s =
           Inl (if creator c \<noteq> sender then OnlyCreatorCanCancel
                else if \<not> isActive c then CapsuleNotActive
                else CapsuleAlreadyUnlocked)
         \<and> kind (if creator c \<noteq> sender then OnlyCreatorCanCancel
                  else if \<not> isActive c then CapsuleNotActive
                  else CapsuleAlreadyUnlocked) = InvalidTransition
         \<and> after L (Tx sender now (Cancel capsuleId)) s = s)
   \<and> (cancelTimeCapsule L sender capsuleId (run L ts deployed) = Inr s' \<longrightarrow>
        \<not> isActive (timeCapsules (run L us s') capsuleId)
        \<and> cancelTimeCapsule L sender' capsuleId (run L us s') =
            Inl (if sender' \<noteq> sender then OnlyCreatorCanCancel else CapsuleNotActive))"
proof -
  have first: "(let c = timeCapsules s capsuleId in
    if creator c = sender \<and> isActive c \<and> \<not> isUnlocked c
    then cancelTimeCapsule L sender capsuleId s =
           Inr (s\<lparr>timeCapsules := (timeCapsules s)
                    (capsuleId := c\<lparr>isActive := False, encryptedIsActive := asEbool L False\<rparr>),
                  events := events s @ [CapsuleCancelled capsuleId sender]\<rparr>)
    else cancelTimeCapsule L sender capsuleId s =
           Inl (if creator c \<noteq> sender then OnlyCreatorCanCancel
                else if \<not> isActive c then CapsuleNotActive
                else CapsuleAlreadyUnlocked)
         \<and> kind (if creator c \<noteq> sender then OnlyCreatorCanCancel
                  else if \<not> isActive c then CapsuleNotActive
                  else CapsuleAlreadyUnlocked) = InvalidTransition
         \<and> after L (Tx sender now (Cancel capsuleId)) s = s)"
    by (simp add: cancelTimeCapsule_def Let_def after_def)
  have second: "\<not> isActive (timeCapsules (run L us s') capsuleId)
        \<and> cancelTimeCapsule L sender' capsuleId (run L us s') =
            Inl (if sender' \<noteq> sender then OnlyCreatorCanCancel else CapsuleNotActive)"
    if ok: "cancelTimeCapsule L sender capsuleId (run L ts deployed) = Inr s'"
  proof -
    let ?s = "run L ts deployed"
    let ?t = "Tx sender 0 (Cancel capsuleId)"
    note f = cancelTimeCapsule_Inr [OF ok]
    have s': "s' = after L ?t ?s" using ok by (simp add: after_def)
    have "timeCapsules ?s capsuleId \<noteq> zeroCapsule"
      using f(7) by (auto simp: zeroCapsule_def)
    then have "\<not> (capsuleId = 0 \<or> nextCapsuleId ?s \<le> capsuleId)"
      using deployed_unused(2) [of capsuleId L ts] by blast
    then have lt: "capsuleId < nextCapsuleId s'" using f(2) by auto
    have 1: "nextCapsuleId s' \<noteq> 0"
      unfolding s' by (rule after_unused(1) [OF deployed_unused(1) deployed_unused(2)])
    have 2: "\<And>j. j = 0 \<or> nextCapsuleId s' \<le> j \<Longrightarrow> timeCapsules s' j = zeroCapsule"
      unfolding s' by (rule after_unused(2) [OF deployed_unused(1) deployed_unused(2)])
    have now: "\<not> isActive (timeCapsules s' capsuleId)" "creator (timeCapsules s' capsuleId) = sender"
      using f(1,6) by simp_all
    from run_settled [OF 1 2 lt, of L us] now
    have "\<not> isActive (timeCapsules (run L us s') capsuleId)"
      and "creator (timeCapsules (run L us s') capsuleId) = sender" by simp_all
    then show ?thesis by (auto simp: cancelTimeCapsule_def Let_def)
  qed
  from first second show ?thesis by blast
qed

theorem cancelTimeCapsule_spec_witness:
  "cancelTimeCapsule mockFHE 0xA1 1 (run mockFHE [sampleCreate] deployed) =
     Inr ((run mockFHE [sampleCreate] deployed)
       \<lparr>timeCapsules := (timeCapsules (run mockFHE [sampleCreate] deployed))
          (1 := (timeCapsules (run mockFHE [sampleCreate] deployed) 1)
             \<lparr>isActive := False, encryptedIsActive := 0xB0\<rparr>),
        events := [CapsuleCreated 1 0xA1 200, CapsuleCancelled 1 0xA1]\<rparr>)
   \<and> cancelTimeCapsule mockFHE 0xA1 1 (run mockFHE [Tx 0xB2 150 (Open 1), Tx 0xA1 160 (Cancel 1)]
        ((run mockFHE [sampleCreate] deployed)
       \<lparr>timeCapsules := (timeCapsules (run mockFHE [sampleCreate] deployed))
          (1 := (timeCapsules (run mockFHE [sampleCreate] deployed) 1)
             \<lparr>isActive := False, encryptedIsActive := 0xB0\<rparr>),
        events := [CapsuleCreated 1 0xA1 200, CapsuleCancelled 1 0xA1]\<rparr>)) = Inl CapsuleNotActive
   \<and> cancelTimeCapsule mockFHE 0xB2 1 (run mockFHE [sampleCreate] deployed) = Inl OnlyCreatorCanCancel"
  using cancelTimeCapsule_spec [of "run mockFHE [sampleCreate] deployed" 1 "0xA1" mockFHE 0 "[sampleCreate]"
      "(run mockFHE [sampleCreate] deployed)
       \<lparr>timeCapsules := (timeCapsules (run mockFHE [sampleCreate] deployed))
          (1 := (timeCapsules (run mockFHE [sampleCreate] deployed) 1)
             \<lparr>isActive := False, encryptedIsActive := 0xB0\<rparr>),
        events := [CapsuleCreated 1 0xA1 200, CapsuleCancelled 1 0xA1]\<rparr>"
      "[Tx 0xB2 150 (Open 1), Tx 0xA1 160 (Cancel 1)]" "0xA1"]
    cancelTimeCapsule_spec [of "run mockFHE [sampleCreate] deployed" 1 "0xB2" mockFHE 0 "[]" deployed "[]" 0]
  by (auto simp: eval_defs sample_defs)

subsection \<open>What never changes\<close>

text \<open>
  C8. A successful cancellation, opening or grant on a capsule changes at most the fields
  \<open>isActive\<close>, \<open>isUnlocked\<close>, \<open>encryptedIsActive\<close> and \<open>encryptedIsUnlocked\<close> of that
  capsule, and no other capsule: its key, creator, unlock time and message chunks (their
  number and each handle), and the encrypted creator and unlock time, are as before.
\<close>

theorem lifecycle_frame:
  assumes "c = Cancel capsuleId \<or> c = Open capsuleId \<or> c = Grant capsuleId recipient"
    and "step L (Tx sender now c) s = Inr (r, s')"
  shows "(\<exists>a u ea eu. timeCapsules s' = (timeCapsules s)
            (capsuleId := (timeCapsules s capsuleId)
               \<lparr>isActive := a, isUnlocked := u, encryptedIsActive := ea, encryptedIsUnlocked := eu\<rparr>))
       \<and> creator (timeCapsules s' capsuleId) = creator (timeCapsules s capsuleId)
       \<and> unlockTime (timeCapsules s' capsuleId) = unlockTime (timeCapsules s capsuleId)
       \<and> encryptedMessage (timeCapsules s' capsuleId) = encryptedMessage (timeCapsules s capsuleId)
       \<and> encryptedCreator (timeCapsules s' capsuleId) = encryptedCreator (timeCapsules s capsuleId)
       \<and> encryptedUnlockTime (timeCapsules s' capsuleId) = encryptedUnlockTime (timeCapsules s capsuleId)
       \<and> nextCapsuleId s' = nextCapsuleId s
       \<and> userCapsules s' = userCapsules s"
proof -
  let ?c = "timeCapsules s capsuleId"
  have same: "(timeCapsules s)(capsuleId := ?c\<lparr>isActive := isActive ?c, isUnlocked := isUnlocked ?c,
        encryptedIsActive := encryptedIsActive ?c, encryptedIsUnlocked := encryptedIsUnlocked ?c\<rparr>)
      = timeCapsules s" by simp
  have users: "userCapsules s' = userCapsules s"
    using assms(1)
  proof (elim disjE)
    assume "c = Cancel capsuleId"
    then have ok: "cancelTimeCapsule L sender capsuleId s = Inr s'"
      using assms(2) by (auto split: sum.splits)
    show ?thesis by (rule cancelTimeCapsule_Inr(3) [OF ok])
  next
    assume "c = Open capsuleId"
    then have ok: "openTimeCapsule L sender now capsuleId s = Inr s'"
      using assms(2) by (auto split: sum.splits)
    show ?thesis using openTimeCapsule_Inr(1) [OF ok] by simp
  next
    assume "c = Grant capsuleId recipient"
    then have ok: "grantDecryptionAccess sender capsuleId recipient s = Inr s'"
      using assms(2) by (auto split: sum.splits)
    show ?thesis using grantDecryptionAccess_Inr(1) [OF ok] by simp
  qed
  have upd: "\<exists>a u ea eu. timeCapsules s' = (timeCapsules s)
            (capsuleId := ?c\<lparr>isActive := a, isUnlocked := u, encryptedIsActive := ea, encryptedIsUnlocked := eu\<rparr>)
        \<and> nextCapsuleId s' = nextCapsuleId s"
    using assms(1)
  proof (elim disjE)
    assume c: "c = Cancel capsuleId"
    then have ok: "cancelTimeCapsule L sender capsuleId s = Inr s'"
      using assms(2) by (auto split: sum.splits)
    have "timeCapsules s' = (timeCapsules s)(capsuleId := ?c\<lparr>isActive := False, isUnlocked := isUnlocked ?c,
        encryptedIsActive := asEbool L False, encryptedIsUnlocked := encryptedIsUnlocked ?c\<rparr>)"
      using cancelTimeCapsule_Inr(1) [OF ok] by simp
    then show ?thesis using cancelTimeCapsule_Inr(2) [OF ok] by blast
  next
    assume c: "c = Open capsuleId"
    then have ok: "openTimeCapsule L sender now capsuleId s = Inr s'"
      using assms(2) by (auto split: sum.splits)
    have "timeCapsules s' = (timeCapsules s)(capsuleId := ?c\<lparr>isActive := False, isUnlocked := True,
        encryptedIsActive := asEbool L False, encryptedIsUnlocked := asEbool L True\<rparr>)"
      using openTimeCapsule_Inr(1) [OF ok] by simp
    moreover have "nextCapsuleId s' = nextCapsuleId s"
      using openTimeCapsule_Inr(1) [OF ok] by simp
    ultimately show ?thesis by blast
  next
    assume c: "c = Grant capsuleId recipient"
    then have ok: "grantDecryptionAccess sender capsuleId recipient s = Inr s'"
      using assms(2) by (auto split: sum.splits)
    have "timeCapsules s' = timeCapsules s" "nextCapsuleId s' = nextCapsuleId s"
      using grantDecryptionAccess_Inr(1) [OF ok] by simp_all
    then show ?thesis using same by metis
  qed
  then obtain a u ea eu where e: "timeCapsules s' = (timeCapsules s)
            (capsuleId := ?c\<lparr>isActive := a, isUnlocked := u, encryptedIsActive := ea, encryptedIsUnlocked := eu\<rparr>)"
    and n: "nextCapsuleId s' = nextCapsuleId s" by blast
  show ?thesis using n users by (auto simp: e)
qed

theorem lifecycle_frame_witness:
  "(Open 1 = Cancel 1 \<or> Open 1 = Open 1 \<or> Open 1 = Grant 1 0)
   \<and> (case step mockFHE sampleOpen (run mockFHE [sampleCreate] deployed) of
         Inl e \<Rightarrow> False
       | Inr (r, s') \<Rightarrow>
           creator (timeCapsules s' 1) = 0xA1 \<and> unlockTime (timeCapsules s' 1) = 200
           \<and> encryptedMessage (timeCapsules s' 1) = [0x11, 0x22] \<and> nextCapsuleId s' = 2)"
proof -
  obtain r s' where ok: "step mockFHE (Tx 0xB2 200 (Open 1)) (run mockFHE [sampleCreate] deployed) = Inr (r, s')"
    by (simp add: eval_defs sample_defs)
  have c: "Open 1 = Cancel 1 \<or> Open 1 = Open 1 \<or> Open 1 = Grant 1 0" by simp
  from lifecycle_frame [OF c ok] ok show ?thesis
    by (simp add: sampleOpen_def) (simp add: eval_defs sample_defs)
qed

subsection \<open>Capsule ids\<close>

text \<open>
  C9. The ids returned by the successful creations of a run from deployment are
  \<open>1, 2, \<dots>, n\<close> in this order: each is strictly greater than every id assigned before
  it, no id is assigned twice, and \<^verbatim>\<open>getTotalCapsules\<close> returns the number \<open>n\<close> of
  successful creations (and does not revert).
\<close>

theorem capsule_ids:
  "map unat (created L ts deployed) = [1 ..< Suc (length (created L ts deployed))]
   \<and> sorted_wrt (<) (created L ts deployed)
   \<and> distinct (created L ts deployed)
   \<and> (\<exists>n. getTotalCapsules (run L ts deployed) = Inr n \<and> unat n = length (created L ts deployed))"
proof -
  let ?ids = "created L ts deployed"
  have m: "map unat ?ids = [1 ..< Suc (length ?ids)]"
    using created_deployed [of L ts] next_deployed [of L ts] by simp
  have "sorted_wrt (<) (map unat ?ids)" unfolding m by (rule sorted_wrt_upt)
  then have s: "sorted_wrt (<) ?ids"
    by (simp add: sorted_wrt_map word_less_nat_alt [abs_def])
  have "distinct (map unat ?ids)" unfolding m by (rule distinct_upt)
  then have d: "distinct ?ids" by (simp add: distinct_map)
  have nz: "nextCapsuleId (run L ts deployed) \<noteq> 0" by (rule deployed_unused(1))
  then have "unat (nextCapsuleId (run L ts deployed) - 1) = length ?ids"
    using next_deployed [of L ts] by (simp add: unat_minus_one)
  then have g: "\<exists>n. getTotalCapsules (run L ts deployed) = Inr n \<and> unat n = length ?ids"
    using nz by (simp add: getTotalCapsules_def)
  from m s d g show ?thesis by blast
qed

text \<open>
  C10. \<^verbatim>\<open>getTimeCapsule\<close> at an id that no successful creation of the run has
  returned does not fail: it returns the zero record (creator \<open>0\<close>, unlock timestamp
  \<open>0\<close>, both flags false, message length \<open>0\<close>).
\<close>

theorem getTimeCapsule_unassigned:
  assumes "capsuleId \<notin> set (created L ts deployed)"
  shows "getTimeCapsule capsuleId (run L ts deployed) = (0, 0, False, False, 0)"
proof -
  have "unat capsuleId \<notin> unat ` set (created L ts deployed)"
  proof
    assume "unat capsuleId \<in> unat ` set (created L ts deployed)"
    then obtain x where x: "x \<in> set (created L ts deployed)" "unat capsuleId = unat x" by auto
    from x(2) have "capsuleId = x" by (simp add: word_unat_eq_iff)
    then show False using x(1) assms by simp
  qed
  then have "unat capsuleId \<notin> set [1 ..< unat (nextCapsuleId (run L ts deployed))]"
    using created_deployed [of L ts] by (metis set_map)
  then have "unat capsuleId = 0 \<or> unat (nextCapsuleId (run L ts deployed)) \<le> unat capsuleId"
    by auto
  then have "capsuleId = 0 \<or> nextCapsuleId (run L ts deployed) \<le> capsuleId"
    by (simp add: word_le_nat_alt unat_eq_0)
  then have "timeCapsules (run L ts deployed) capsuleId = zeroCapsule"
    by (rule deployed_unused(2))
  then show ?thesis by (simp add: getTimeCapsule_def zeroCapsule_def)
qed

theorem getTimeCapsule_unassigned_witness:
  "2 \<notin> set (created mockFHE [Tx 0xA1 100 (Create [0x11, 0x22] [[1], [2]] 0x33 [3] 200)] deployed)
   \<and> getTimeCapsule 2 (run mockFHE [Tx 0xA1 100 (Create [0x11, 0x22] [[1], [2]] 0x33 [3] 200)] deployed)
       = (0, 0, False, False, 0)"
  using getTimeCapsule_unassigned [of 2 mockFHE "[Tx 0xA1 100 (Create [0x11, 0x22] [[1], [2]] 0x33 [3] 200)]"]
  by (simp add: eval_defs)

section \<open>Properties of the codec\<close>

lemma digitVal_hexDigit: "d < 16 \<Longrightarrow> digitVal (hexDigit d) = Some d"
proof -
  have "\<forall>d<16. digitVal (hexDigit d) = Some d"
    by (simp add: All_less_Suc eval_nat_numeral hexDigit_def digitVal_def)
  then show "d < 16 \<Longrightarrow> digitVal (hexDigit d) = Some d" by blast
qed





lemma length_fixedHex [simp]: "length (fixedHex k n) = k"
  by (induction k arbitrary: n) simp_all


lemma hexValue_append:
  "hexValue (xs @ ys) acc = (case hexValue xs acc of None \<Rightarrow> None | Some v \<Rightarrow> hexValue ys v)"
  by (induction xs arbitrary: acc) (simp_all split: option.splits)

lemma hexValue_fixedHex: "n < 16 ^ k \<Longrightarrow> hexValue (fixedHex k n) acc = Some (acc * 16 ^ k + n)"
proof (induction k arbitrary: n)
  case 0
  then show ?case by simp
next
  case (Suc k)
  have "n < 16 ^ k * 16" using Suc.prems by simp
  then have "n div 16 < 16 ^ k" by (rule less_mult_imp_div_less)
  then have "hexValue (fixedHex k (n div 16)) acc = Some (acc * 16 ^ k + n div 16)"
    by (rule Suc.IH)
  moreover have "16 * (acc * 16 ^ k + n div 16) + n mod 16 = acc * 16 ^ Suc k + n"
    by (simp add: algebra_simps)
  ultimately show ?case
    by (simp add: hexValue_append digitVal_hexDigit)
qed





























end
